theory Spec2Isabelle
  imports Complex_Main "HOL-Library.Multiset" "HOL-Library.Sublist"
    "HOL-Library.List_Lexorder" "HOL-Library.Char_ord"
begin

section \<open>The 24 game solver: data model\<close>

text \<open>
  The program is \<^verbatim>\<open>main.go\<close>. Its numbers are Go \<^verbatim>\<open>float64\<close> values; the model takes
  them as real numbers with exact arithmetic, as the specification's data model does
  (an operand is "a real number"). Rounding, infinities and NaN are outside the model.
  The tolerance \<^verbatim>\<open>1e-9\<close> is the real number \<open>1 / 10 ^ 9\<close>.

  A \<^verbatim>\<open>Node\<close> is the struct \<^verbatim>\<open>{op string; value float64; left, right *Node}\<close>. The trees
  are built bottom-up and never mutated, so a pointer is modelled by the node it points to
  and \<^verbatim>\<open>nil\<close> by \<open>None\<close>. The field \<^verbatim>\<open>value\<close> is the selector \<open>val\<close>.
\<close>

datatype Node = Node (op: string) (val: real) (left: "Node option") (right: "Node option")

record Expression =
  formula :: string
  "value" :: real

definition operations :: "string list" where
  "operations = [''+'', ''-'', ''*'', ''/'']"

section \<open>Evaluation of one step\<close>

text \<open>\<^verbatim>\<open>calculate\<close>: the \<^verbatim>\<open>switch\<close> over the operator string, with the final
  \<^verbatim>\<open>return 0, false\<close> for any other string.\<close>

definition calculate :: "real \<Rightarrow> real \<Rightarrow> string \<Rightarrow> real \<times> bool" where
  "calculate a b opr =
     (if opr = ''+'' then (a + b, True)
      else if opr = ''-'' then (a - b, True)
      else if opr = ''*'' then (a * b, True)
      else if opr = ''/'' then (if \<bar>b\<bar> < 1 / 10 ^ 9 then (0, False) else (a / b, True))
      else (0, False))"

definition isApproximately24 :: "real \<Rightarrow> bool" where
  "isApproximately24 v = (\<bar>v - 24\<bar> < 1 / 10 ^ 9)"

section \<open>Enumeration\<close>

text \<open>\<^verbatim>\<open>generatePermutations\<close>: a slice of length at most one is returned as the only
  ordering; otherwise each index \<open>i\<close> in turn puts \<open>nums[i]\<close> in front of every ordering
  of the remaining elements. Every slice the source builds is fresh, so lists model them.\<close>

fun generatePermutations :: "'a list \<Rightarrow> 'a list list" where
  "generatePermutations nums =
     (if length nums \<le> 1 then [nums]
      else concat (map (\<lambda>i. map (\<lambda>perm. (nums ! i) # perm)
                                 (generatePermutations (take i nums @ drop (Suc i) nums)))
                       [0..<length nums]))"

declare generatePermutations.simps [simp del]

definition generateOperations :: "string list list" where
  "generateOperations =
     concat (map (\<lambda>op1. concat (map (\<lambda>op2. map (\<lambda>op3. [op1, op2, op3]) operations)
                                     operations))
                 operations)"

section \<open>Canonical keys\<close>

text \<open>\<^verbatim>\<open>numStr\<close> calls \<^verbatim>\<open>strconv.FormatFloat(n, 'g', -1, 64)\<close> of the Go library, the
  shortest decimal text that reads back as the same \<^verbatim>\<open>float64\<close>. That text depends on the
  binary representation, so the library function is a parameter \<open>ff\<close> of the model.
  \<open>wholeStr\<close> is what it prints for a whole number of magnitude below \<open>10^6\<close>: the sign
  and the decimal digits. The operands the program reads are the whole numbers 1 to 9.\<close>

definition digitChar :: "nat \<Rightarrow> char" where
  "digitChar d = ''0123456789'' ! d"

fun natStr :: "nat \<Rightarrow> string" where
  "natStr n = (if n < 10 then [digitChar n] else natStr (n div 10) @ [digitChar (n mod 10)])"

declare natStr.simps [simp del]

definition wholeStr :: "real \<Rightarrow> string" where
  "wholeStr x = (if x < 0 then ''-'' else []) @ natStr (nat \<lfloor>\<bar>x\<bar>\<rfloor>)"

definition numStr :: "(real \<Rightarrow> string) \<Rightarrow> real \<Rightarrow> string" where
  "numStr ff n = ff n"

text \<open>\<^verbatim>\<open>strings.Join\<close>.\<close>

fun Join :: "string list \<Rightarrow> string \<Rightarrow> string" where
  "Join [] sep = []"
| "Join [s] sep = s"
| "Join (s # t # ss) sep = s @ sep @ Join (t # ss) sep"

text \<open>\<^verbatim>\<open>getCanonicalKey\<close> and \<^verbatim>\<open>collectOperands\<close>. The result \<open>None\<close> is the panic of
  a nil pointer dereference, which the source reaches when exactly one child of a node is
  nil. \<^verbatim>\<open>collectOperands\<close> appends to the slice behind its pointer argument; the model
  passes the list in and returns it. \<^verbatim>\<open>sort.Strings\<close> sorts by bytewise lexicographic
  order, which is \<open>sort\<close> on character lists.\<close>

function (sequential) getCanonicalKey :: "(real \<Rightarrow> string) \<Rightarrow> Node \<Rightarrow> string option"
  and collectOperands ::
    "(real \<Rightarrow> string) \<Rightarrow> Node \<Rightarrow> string \<Rightarrow> string list \<Rightarrow> string list option"
where
  "getCanonicalKey ff (Node opn v None None) = Some (numStr ff v)"
| "getCanonicalKey ff (Node opn v (Some l) (Some r)) =
     (case getCanonicalKey ff l of None \<Rightarrow> None | Some keyL \<Rightarrow>
      (case getCanonicalKey ff r of None \<Rightarrow> None | Some keyR \<Rightarrow>
        if opn = ''*'' \<and> keyL = ''1'' then Some keyR
        else if opn = ''*'' \<and> keyR = ''1'' then Some keyL
        else if opn = ''/'' \<and> keyR = ''1'' then Some keyL
        else if opn = ''+'' \<or> opn = ''*'' then
          (case collectOperands ff (Node opn v (Some l) (Some r)) opn [] of None \<Rightarrow> None
           | Some operands \<Rightarrow> Some (''('' @ Join (sort operands) opn @ '')''))
        else Some (''('' @ keyL @ opn @ keyR @ '')'')))"
| "getCanonicalKey ff (Node opn v l r) = None"
| "collectOperands ff (Node opn v l r) opr operands =
     (if opn = opr then
        (case (case l of None \<Rightarrow> Some operands
               | Some lc \<Rightarrow> collectOperands ff lc opr operands) of
           None \<Rightarrow> None
         | Some operands1 \<Rightarrow>
            (case r of None \<Rightarrow> Some operands1
             | Some rc \<Rightarrow> collectOperands ff rc opr operands1))
      else (case getCanonicalKey ff (Node opn v l r) of None \<Rightarrow> None
            | Some k \<Rightarrow> Some (operands @ [k])))"
  by pat_completeness auto
termination
  by (relation "measure (\<lambda>x. case x of
         Inl (ff, n) \<Rightarrow> 3 * size n + 1
       | Inr (ff, n, opr, acc) \<Rightarrow> if op n = opr then 3 * size n else 3 * size n + 2)")
     auto

section \<open>Rendering\<close>

text \<open>\<^verbatim>\<open>fmt.Sprintf\<close> on the part the program uses: the verb \<^verbatim>\<open>%.0f\<close> with a float
  argument and the verb \<^verbatim>\<open>%s\<close> with a string argument; every other character of the
  format is copied. \<^verbatim>\<open>%.0f\<close> prints the value rounded to a whole number, a tie going to
  the even neighbour, with the sign of the value.\<close>

definition roundHalfEven :: "real \<Rightarrow> int" where
  "roundHalfEven x =
     (let f = \<lfloor>x\<rfloor>; d = x - of_int f
      in if d < 1 / 2 then f else if 1 / 2 < d then f + 1 else if even f then f else f + 1)"

definition fmt0f :: "real \<Rightarrow> string" where
  "fmt0f x = (if x < 0 then ''-'' else []) @ natStr (nat (roundHalfEven \<bar>x\<bar>))"

datatype fmtArg = FloatArg real | StrArg string

fun Sprintf :: "string \<Rightarrow> fmtArg list \<Rightarrow> string" where
  "Sprintf [] as = []"
| "Sprintf (c # fs) as =
     (case as of
        [] \<Rightarrow> c # Sprintf fs as
      | FloatArg x # rest \<Rightarrow>
          if c = CHR ''%'' \<and> take 3 fs = ''.0f'' then fmt0f x @ Sprintf (drop 3 fs) rest
          else c # Sprintf fs as
      | StrArg s # rest \<Rightarrow>
          if c = CHR ''%'' \<and> take 1 fs = ''s'' then s @ Sprintf (drop 1 fs) rest
          else c # Sprintf fs as)"

text \<open>The map \<^verbatim>\<open>formulas\<close> of \<^verbatim>\<open>findSolutions\<close>; a key that is not in a Go map reads as
  the empty string.\<close>

definition formulas :: "nat \<Rightarrow> string" where
  "formulas k =
     (if k = 1 then ''((%.0f %s %.0f) %s %.0f) %s %.0f''
      else if k = 2 then ''(%.0f %s (%.0f %s %.0f)) %s %.0f''
      else if k = 3 then ''%.0f %s ((%.0f %s %.0f) %s %.0f)''
      else if k = 4 then ''%.0f %s (%.0f %s (%.0f %s %.0f))''
      else if k = 5 then ''(%.0f %s %.0f) %s (%.0f %s %.0f)''
      else [])"

section \<open>The expression tree builder\<close>

text \<open>The five blocks of \<^verbatim>\<open>findSolutions\<close> that evaluate one shape each; a block leaves
  \<^verbatim>\<open>trees\<close> as it is or appends one tree, so each returns the list it appends.\<close>

definition pattern1 :: "Node list \<Rightarrow> string list \<Rightarrow> Node list" where
  "pattern1 n opl =
     (case calculate (val (n ! 0)) (val (n ! 1)) (opl ! 0) of (v1, ok1) \<Rightarrow>
      if ok1 then
        (case calculate v1 (val (n ! 2)) (opl ! 1) of (v2, ok2) \<Rightarrow>
         if ok2 then
           (case calculate v2 (val (n ! 3)) (opl ! 2) of (v3, ok3) \<Rightarrow>
            if ok3 \<and> isApproximately24 v3 then
              (let node1 = Node (opl ! 0) v1 (Some (n ! 0)) (Some (n ! 1));
                   node2 = Node (opl ! 1) v2 (Some node1) (Some (n ! 2))
               in [Node (opl ! 2) v3 (Some node2) (Some (n ! 3))])
            else [])
         else [])
      else [])"

definition pattern2 :: "Node list \<Rightarrow> string list \<Rightarrow> Node list" where
  "pattern2 n opl =
     (case calculate (val (n ! 1)) (val (n ! 2)) (opl ! 1) of (v1, ok1) \<Rightarrow>
      if ok1 then
        (case calculate (val (n ! 0)) v1 (opl ! 0) of (v2, ok2) \<Rightarrow>
         if ok2 then
           (case calculate v2 (val (n ! 3)) (opl ! 2) of (v3, ok3) \<Rightarrow>
            if ok3 \<and> isApproximately24 v3 then
              (let node1 = Node (opl ! 1) v1 (Some (n ! 1)) (Some (n ! 2));
                   node2 = Node (opl ! 0) v2 (Some (n ! 0)) (Some node1)
               in [Node (opl ! 2) v3 (Some node2) (Some (n ! 3))])
            else [])
         else [])
      else [])"

definition pattern3 :: "Node list \<Rightarrow> string list \<Rightarrow> Node list" where
  "pattern3 n opl =
     (case calculate (val (n ! 1)) (val (n ! 2)) (opl ! 1) of (v1, ok1) \<Rightarrow>
      if ok1 then
        (case calculate v1 (val (n ! 3)) (opl ! 2) of (v2, ok2) \<Rightarrow>
         if ok2 then
           (case calculate (val (n ! 0)) v2 (opl ! 0) of (v3, ok3) \<Rightarrow>
            if ok3 \<and> isApproximately24 v3 then
              (let node1 = Node (opl ! 1) v1 (Some (n ! 1)) (Some (n ! 2));
                   node2 = Node (opl ! 2) v2 (Some node1) (Some (n ! 3))
               in [Node (opl ! 0) v3 (Some (n ! 0)) (Some node2)])
            else [])
         else [])
      else [])"

definition pattern4 :: "Node list \<Rightarrow> string list \<Rightarrow> Node list" where
  "pattern4 n opl =
     (case calculate (val (n ! 2)) (val (n ! 3)) (opl ! 2) of (v1, ok1) \<Rightarrow>
      if ok1 then
        (case calculate (val (n ! 1)) v1 (opl ! 1) of (v2, ok2) \<Rightarrow>
         if ok2 then
           (case calculate (val (n ! 0)) v2 (opl ! 0) of (v3, ok3) \<Rightarrow>
            if ok3 \<and> isApproximately24 v3 then
              (let node1 = Node (opl ! 2) v1 (Some (n ! 2)) (Some (n ! 3));
                   node2 = Node (opl ! 1) v2 (Some (n ! 1)) (Some node1)
               in [Node (opl ! 0) v3 (Some (n ! 0)) (Some node2)])
            else [])
         else [])
      else [])"

definition pattern5 :: "Node list \<Rightarrow> string list \<Rightarrow> Node list" where
  "pattern5 n opl =
     (case calculate (val (n ! 0)) (val (n ! 1)) (opl ! 0) of (v1, ok1) \<Rightarrow>
      if ok1 then
        (case calculate (val (n ! 2)) (val (n ! 3)) (opl ! 2) of (v2, ok2) \<Rightarrow>
         if ok2 then
           (case calculate v1 v2 (opl ! 1) of (v3, ok3) \<Rightarrow>
            if ok3 \<and> isApproximately24 v3 then
              (let node1 = Node (opl ! 0) v1 (Some (n ! 0)) (Some (n ! 1));
                   node2 = Node (opl ! 2) v2 (Some (n ! 2)) (Some (n ! 3))
               in [Node (opl ! 1) v3 (Some node1) (Some node2)])
            else [])
         else [])
      else [])"

text \<open>The leaves \<^verbatim>\<open>n[i] = &Node{value: perm[i]}\<close> and the slice \<^verbatim>\<open>trees\<close> after the five
  blocks.\<close>

definition leaves :: "real list \<Rightarrow> Node list" where
  "leaves perm = map (\<lambda>i. Node [] (perm ! i) None None) [0..<4]"

definition buildTrees :: "real list \<Rightarrow> string list \<Rightarrow> Node list" where
  "buildTrees perm ops =
     (let n = leaves perm; opl = ops
      in pattern1 n opl @ pattern2 n opl @ pattern3 n opl @ pattern4 n opl @ pattern5 n opl)"

section \<open>Deduplication and collection\<close>

text \<open>The registry \<^verbatim>\<open>seenKeys\<close> is a \<^verbatim>\<open>map[string]bool\<close> in which a missing key reads
  \<^verbatim>\<open>false\<close>: a predicate on strings. The loop \<^verbatim>\<open>for i, tree := range trees\<close> threads
  the results and the registry; \<open>i\<close> is the position in \<^verbatim>\<open>trees\<close>.\<close>

definition renderFormula :: "nat \<Rightarrow> real list \<Rightarrow> string list \<Rightarrow> string" where
  "renderFormula i perm ops =
     Sprintf (formulas (i + 1))
       [FloatArg (perm ! 0), StrArg (ops ! 0), FloatArg (perm ! 1), StrArg (ops ! 1),
        FloatArg (perm ! 2), StrArg (ops ! 2), FloatArg (perm ! 3)]"

fun acceptLoop ::
  "(real \<Rightarrow> string) \<Rightarrow> real list \<Rightarrow> string list \<Rightarrow> nat \<Rightarrow> Node list \<Rightarrow>
   Expression list \<times> (string \<Rightarrow> bool) \<Rightarrow> (Expression list \<times> (string \<Rightarrow> bool)) option"
where
  "acceptLoop ff perm ops i [] st = Some st"
| "acceptLoop ff perm ops i (tree # trees) (results, seenKeys) =
     (case getCanonicalKey ff tree of
        None \<Rightarrow> None
      | Some key \<Rightarrow>
          if \<not> seenKeys key then
            acceptLoop ff perm ops (Suc i) trees
              (results @ [\<lparr>formula = renderFormula i perm ops, value = val tree\<rparr>],
               seenKeys(key := True))
          else acceptLoop ff perm ops (Suc i) trees (results, seenKeys))"

text \<open>\<^verbatim>\<open>findSolutions\<close> returns its results and leaves the registry updated. It reads
  \<^verbatim>\<open>perm[0..3]\<close> and, whatever the values are, each of \<^verbatim>\<open>op[0]\<close>, \<^verbatim>\<open>op[1]\<close> and
  \<^verbatim>\<open>op[2]\<close> (first in the blocks of shapes 1, 2 and 4), so it panics with an index out
  of range, the result \<open>None\<close>, exactly when \<open>perm\<close> has fewer than four elements or
  \<open>ops\<close> fewer than three.\<close>

definition findSolutions ::
  "(real \<Rightarrow> string) \<Rightarrow> real list \<Rightarrow> string list \<Rightarrow> (string \<Rightarrow> bool) \<Rightarrow>
   (Expression list \<times> (string \<Rightarrow> bool)) option"
where
  "findSolutions ff perm ops seenKeys =
     (if length perm < 4 \<or> length ops < 3 then None
      else acceptLoop ff perm ops 0 (buildTrees perm ops) ([], seenKeys))"

text \<open>The search of \<^verbatim>\<open>main\<close> for one line of input: a fresh registry, then the loop over
  the permutations and inside it the loop over the operator triples, appending what each
  call of \<^verbatim>\<open>findSolutions\<close> returns.\<close>

fun opsLoop ::
  "(real \<Rightarrow> string) \<Rightarrow> real list \<Rightarrow> string list list \<Rightarrow>
   Expression list \<times> (string \<Rightarrow> bool) \<Rightarrow> (Expression list \<times> (string \<Rightarrow> bool)) option"
where
  "opsLoop ff perm [] st = Some st"
| "opsLoop ff perm (ops # rest) (uniqueSolutions, seenKeys) =
     (case findSolutions ff perm ops seenKeys of
        None \<Rightarrow> None
      | Some (solutions, seenKeys') \<Rightarrow>
          opsLoop ff perm rest (uniqueSolutions @ solutions, seenKeys'))"

fun permLoop ::
  "(real \<Rightarrow> string) \<Rightarrow> real list list \<Rightarrow> string list list \<Rightarrow>
   Expression list \<times> (string \<Rightarrow> bool) \<Rightarrow> (Expression list \<times> (string \<Rightarrow> bool)) option"
where
  "permLoop ff [] operationCombos st = Some st"
| "permLoop ff (perm # rest) operationCombos st =
     (case opsLoop ff perm operationCombos st of
        None \<Rightarrow> None
      | Some st' \<Rightarrow> permLoop ff rest operationCombos st')"

definition searchAll :: "(real \<Rightarrow> string) \<Rightarrow> real list \<Rightarrow> Expression list option" where
  "searchAll ff nums =
     (case permLoop ff (generatePermutations nums) generateOperations ([], \<lambda>k. False) of
        None \<Rightarrow> None
      | Some (uniqueSolutions, seenKeys) \<Rightarrow> Some uniqueSolutions)"

section \<open>The search as the specification describes it\<close>

text \<open>The definitions of this section follow the specification, not the source: they
  are what the source's loops are compared with.

  A discovery is one candidate of the traversal: the permutation and the operator triple
  it was built from, the number of its shape (1 to 5), its position among the candidates
  of the same permutation and triple, and its tree.\<close>

record Discovery =
  dperm :: "real list"
  dops :: "string list"
  dshape :: nat
  dindex :: nat
  dtree :: Node

definition shape :: "nat \<Rightarrow> Node list \<Rightarrow> string list \<Rightarrow> Node list" where
  "shape k n opl =
     (if k = 1 then pattern1 n opl
      else if k = 2 then pattern2 n opl
      else if k = 3 then pattern3 n opl
      else if k = 4 then pattern4 n opl
      else if k = 5 then pattern5 n opl
      else [])"

definition shapesOf :: "real list \<Rightarrow> string list \<Rightarrow> (nat \<times> Node) list" where
  "shapesOf perm ops =
     concat (map (\<lambda>k. map (\<lambda>t. (k, t)) (shape k (leaves perm) ops)) [1, 2, 3, 4, 5])"

fun numbered :: "real list \<Rightarrow> string list \<Rightarrow> nat \<Rightarrow> (nat \<times> Node) list \<Rightarrow> Discovery list" where
  "numbered perm ops i [] = []"
| "numbered perm ops i ((k, t) # kts) =
     \<lparr>dperm = perm, dops = ops, dshape = k, dindex = i, dtree = t\<rparr>
       # numbered perm ops (Suc i) kts"

definition discoveries :: "real list \<Rightarrow> string list \<Rightarrow> Discovery list" where
  "discoveries perm ops = numbered perm ops 0 (shapesOf perm ops)"

text \<open>The traversal: the permutations outermost, the operator triples inside, the shapes
  1 to 5 innermost.\<close>

definition discoveryOrder :: "real list \<Rightarrow> Discovery list" where
  "discoveryOrder nums =
     concat (map (\<lambda>perm. concat (map (\<lambda>ops. discoveries perm ops) generateOperations))
                 (generatePermutations nums))"

text \<open>Of a list, the elements whose key no earlier element has, in the order of the list.\<close>

fun firstOfEachKey :: "('a \<Rightarrow> 'k) \<Rightarrow> 'a list \<Rightarrow> 'a list" where
  "firstOfEachKey key [] = []"
| "firstOfEachKey key (x # xs) = x # filter (\<lambda>y. key y \<noteq> key x) (firstOfEachKey key xs)"

definition treeKey :: "(real \<Rightarrow> string) \<Rightarrow> Discovery \<Rightarrow> string option" where
  "treeKey ff d = getCanonicalKey ff (dtree d)"

definition admitted :: "(real \<Rightarrow> string) \<Rightarrow> real list \<Rightarrow> Discovery list" where
  "admitted ff nums = firstOfEachKey (treeKey ff) (discoveryOrder nums)"

text \<open>The Solution the source makes of a discovery: the template is looked up at the
  position \<open>i + 1\<close> of the tree in \<^verbatim>\<open>trees\<close>.\<close>

definition solutionOf :: "Discovery \<Rightarrow> Expression" where
  "solutionOf d =
     \<lparr>formula = renderFormula (dindex d) (dperm d) (dops d), value = val (dtree d)\<rparr>"

text \<open>A tree is well formed when every node has both children or none.\<close>

fun wellFormed :: "Node \<Rightarrow> bool" where
  "wellFormed (Node opn v None None) = True"
| "wellFormed (Node opn v (Some l) (Some r)) = (wellFormed l \<and> wellFormed r)"
| "wellFormed (Node opn v l r) = False"

text \<open>A step of the registry on a list of candidates, used to relate the loops to
  \<open>firstOfEachKey\<close>; \<open>liftSeen\<close> reads the registry at the result of
  \<open>getCanonicalKey\<close>.\<close>

fun admitNew :: "('a \<Rightarrow> 'k) \<Rightarrow> ('k \<Rightarrow> bool) \<Rightarrow> 'a list \<Rightarrow> 'a list" where
  "admitNew key seen [] = []"
| "admitNew key seen (x # xs) =
     (if seen (key x) then admitNew key seen xs
      else x # admitNew key (seen(key x := True)) xs)"

definition liftSeen :: "(string \<Rightarrow> bool) \<Rightarrow> string option \<Rightarrow> bool" where
  "liftSeen seen ko = (case ko of None \<Rightarrow> False | Some k \<Rightarrow> seen k)"

section \<open>Reading a formula back\<close>

text \<open>The definitions of this section follow the specification's words "evaluating its
  formula exactly as rendered": the text is split into numbers, operators and
  parentheses and evaluated with the usual meaning of parentheses. Each operator
  application has two operands, each a number or a parenthesised application, as in the
  five templates; any other text, and a division by zero, has no value. Numbers are
  sequences of decimal digits.\<close>

datatype token = TNum real | TOp char | TLParen | TRParen

definition isDigit :: "char \<Rightarrow> bool" where
  "isDigit c = (c \<in> set ''0123456789'')"

definition digitVal :: "char \<Rightarrow> nat" where
  "digitVal c = length (takeWhile (\<lambda>d. d \<noteq> c) ''0123456789'')"

definition flush :: "nat option \<Rightarrow> token list" where
  "flush acc = (case acc of None \<Rightarrow> [] | Some n \<Rightarrow> [TNum (real n)])"

fun tokenize :: "string \<Rightarrow> nat option \<Rightarrow> token list option" where
  "tokenize [] acc = Some (flush acc)"
| "tokenize (c # cs) acc =
     (if isDigit c then
        tokenize cs (Some (10 * (case acc of None \<Rightarrow> 0 | Some n \<Rightarrow> n) + digitVal c))
      else if c = CHR '' '' then map_option (\<lambda>ts. flush acc @ ts) (tokenize cs None)
      else if c = CHR ''('' then map_option (\<lambda>ts. flush acc @ TLParen # ts) (tokenize cs None)
      else if c = CHR '')'' then map_option (\<lambda>ts. flush acc @ TRParen # ts) (tokenize cs None)
      else if c \<in> set ''+-*/'' then map_option (\<lambda>ts. flush acc @ TOp c # ts) (tokenize cs None)
      else None)"

definition applyOp :: "char \<Rightarrow> real \<Rightarrow> real \<Rightarrow> real option" where
  "applyOp c l r =
     (if c = CHR ''+'' then Some (l + r)
      else if c = CHR ''-'' then Some (l - r)
      else if c = CHR ''*'' then Some (l * r)
      else if c = CHR ''/'' then (if r = 0 then None else Some (l / r))
      else None)"

text \<open>What has been read inside one pair of parentheses: nothing, a left operand, a left
  operand and an operator, or a complete application.\<close>

datatype frame = Empty | Operand real | Pending real char | Done real

fun pushVal :: "real \<Rightarrow> frame \<Rightarrow> frame option" where
  "pushVal v Empty = Some (Operand v)"
| "pushVal v (Pending l c) = map_option Done (applyOp c l v)"
| "pushVal v f = None"

fun frameValue :: "frame \<Rightarrow> real option" where
  "frameValue (Operand v) = Some v"
| "frameValue (Done v) = Some v"
| "frameValue f = None"

fun evalTokens :: "token list \<Rightarrow> frame list \<Rightarrow> real option" where
  "evalTokens [] [f] = frameValue f"
| "evalTokens (TNum v # ts) (f # fs) =
     (case pushVal v f of None \<Rightarrow> None | Some f' \<Rightarrow> evalTokens ts (f' # fs))"
| "evalTokens (TLParen # ts) fs = evalTokens ts (Empty # fs)"
| "evalTokens (TRParen # ts) (f # g # fs) =
     (case frameValue f of
        None \<Rightarrow> None
      | Some v \<Rightarrow> (case pushVal v g of None \<Rightarrow> None | Some g' \<Rightarrow> evalTokens ts (g' # fs)))"
| "evalTokens (TOp c # ts) (Operand l # fs) = evalTokens ts (Pending l c # fs)"
| "evalTokens ts fs = None"

definition evalFormula :: "string \<Rightarrow> real option" where
  "evalFormula s = (case tokenize s None of None \<Rightarrow> None | Some ts \<Rightarrow> evalTokens ts [Empty])"

section \<open>A run of the search\<close>

text \<open>The tree of the first candidate that the traversal finds for the operands
  1, 2, 3, 7: the shape 4 tree of \<open>1 + (2 + (3 * 7))\<close>.\<close>

definition firstTree1237 :: Node where
  "firstTree1237 =
     Node ''+'' 24 (Some (Node [] 1 None None))
       (Some (Node ''+'' 23 (Some (Node [] 2 None None))
          (Some (Node ''*'' 21 (Some (Node [] 3 None None)) (Some (Node [] 7 None None))))))"

section \<open>The evaluation step\<close>

lemma calculate_plus: "calculate a b ''+'' = (a + b, True)"
  by (simp add: calculate_def)

lemma calculate_minus: "calculate a b ''-'' = (a - b, True)"
  by (simp add: calculate_def)

lemma calculate_times: "calculate a b ''*'' = (a * b, True)"
  by (simp add: calculate_def)

lemma calculate_divide:
  "calculate a b ''/'' = (if \<bar>b\<bar> < 1 / 10 ^ 9 then (0, False) else (a / b, True))"
  by (simp add: calculate_def)

text \<open>
  C5. For all real operands \<open>a\<close>, \<open>b\<close> and each of the four operators, \<open>calculate\<close> fails
  exactly when the operator is the division and \<open>\<bar>b\<bar> < 1e-9\<close>; addition, subtraction and
  multiplication always succeed with \<open>a + b\<close>, \<open>a - b\<close> and \<open>a * b\<close>, and a division that
  succeeds returns \<open>a / b\<close>.
\<close>

theorem calculate_fails_iff_near_zero_divisor:
  "(\<forall>opr \<in> set operations.
      (snd (calculate a b opr) = False) = (opr = ''/'' \<and> \<bar>b\<bar> < 1 / 10 ^ 9))
   \<and> calculate a b ''+'' = (a + b, True)
   \<and> calculate a b ''-'' = (a - b, True)
   \<and> calculate a b ''*'' = (a * b, True)
   \<and> (snd (calculate a b ''/'') \<longrightarrow> fst (calculate a b ''/'') = a / b)"
  by (simp add: calculate_def operations_def)

theorem calculate_fails_iff_near_zero_divisor_witness:
  "snd (calculate 8 0 ''/'') = False \<and> snd (calculate 8 0 ''-'') = True
   \<and> snd (calculate 8 2 ''/'') \<and> fst (calculate 8 2 ''/'') = 4"
  using calculate_fails_iff_near_zero_divisor [of 8 0]
    calculate_fails_iff_near_zero_divisor [of 8 2]
  by (simp add: operations_def)

text \<open>
  C10. \<open>calculate\<close> has a result for every pair of operands and every operator string,
  and for a string that is none of \<open>+\<close>, \<open>-\<close>, \<open>*\<close>, \<open>/\<close> the result is \<open>(0, false)\<close>:
  an unknown operator is a failed step.
\<close>

theorem calculate_unknown_operator:
  "(\<exists>r ok. calculate a b opr = (r, ok))
   \<and> (opr \<notin> set operations \<longrightarrow> calculate a b opr = (0, False))"
  by (simp add: calculate_def operations_def)

theorem calculate_unknown_operator_witness:
  "''^'' \<notin> set operations \<and> calculate 2 3 ''^'' = (0, False)"
  using calculate_unknown_operator [of 2 3 "''^''"]
  by (simp add: operations_def)

section \<open>The permutation generator\<close>

lemma remove_nth_length:
  "i < length xs \<Longrightarrow> length (take i xs @ drop (Suc i) xs) = length xs - 1"
  by simp

lemma remove_nth_mset:
  "i < length xs \<Longrightarrow> mset (take i xs @ drop (Suc i) xs) = mset xs - {#xs ! i#}"
proof -
  assume i: "i < length xs"
  have "xs = take i xs @ (xs ! i) # drop (Suc i) xs"
    using i by (simp add: id_take_nth_drop)
  then have "mset xs = mset (take i xs @ drop (Suc i) xs) + {#xs ! i#}"
    by (metis mset.simps(2) mset_append union_mset_add_mset_right add.right_neutral add_mset_add_single)
  then show ?thesis by simp
qed

lemma generatePermutations_length:
  "length (generatePermutations xs) = fact (length xs)"
proof (induction xs rule: generatePermutations.induct)
  case (1 nums)
  show ?case
  proof (cases "length nums \<le> 1")
    case True
    then have "length nums = 0 \<or> length nums = 1" by linarith
    then show ?thesis
      using True by (subst generatePermutations.simps) auto
  next
    case False
    have step: "length (generatePermutations (take i nums @ drop (Suc i) nums)) = fact (length nums - 1)"
      if "i < length nums" for i
      using "1.IH" [OF False, of i] that by simp
    have "length (generatePermutations nums) =
            sum_list (map (\<lambda>i. length (generatePermutations (take i nums @ drop (Suc i) nums)))
                          [0..<length nums])"
      using False
      by (subst generatePermutations.simps) (simp add: length_concat comp_def)
    also have "\<dots> = sum_list (map (\<lambda>i. fact (length nums - 1)) [0..<length nums])"
      by (rule arg_cong [where f = sum_list], rule map_cong) (simp_all add: step)
    also have "\<dots> = length nums * fact (length nums - 1)"
      by (simp add: sum_list_triv)
    also have "\<dots> = fact (length nums)"
      using False by (cases "length nums") simp_all
    finally show ?thesis .
  qed
qed

lemma generatePermutations_mset:
  "p \<in> set (generatePermutations xs) \<Longrightarrow> mset p = mset xs"
proof (induction xs arbitrary: p rule: generatePermutations.induct)
  case (1 nums)
  show ?case
  proof (cases "length nums \<le> 1")
    case True
    with "1.prems" show ?thesis
      by (subst (asm) generatePermutations.simps) simp
  next
    case False
    from "1.prems" False obtain i q where i: "i < length nums"
      and q: "q \<in> set (generatePermutations (take i nums @ drop (Suc i) nums))"
      and p: "p = nums ! i # q"
      by (subst (asm) generatePermutations.simps) auto
    have "mset q = mset nums - {#nums ! i#}"
      using "1.IH" [OF False _ q] i remove_nth_mset [OF i] by simp
    then show ?thesis
      using p i by simp
  qed
qed

lemma generatePermutations_complete:
  "mset p = mset xs \<Longrightarrow> p \<in> set (generatePermutations xs)"
proof (induction xs arbitrary: p rule: generatePermutations.induct)
  case (1 nums)
  have len: "length p = length nums"
    using "1.prems" by (metis size_mset)
  show ?case
  proof (cases "length nums \<le> 1")
    case True
    have "p = nums"
    proof (cases nums)
      case Nil
      then show ?thesis using "1.prems" by simp
    next
      case (Cons a as)
      with True have "nums = [a]" by simp
      then show ?thesis using "1.prems" by (simp add: mset_single_iff_right)
    qed
    with True show ?thesis
      by (subst generatePermutations.simps) simp
  next
    case False
    then obtain y q where p: "p = y # q"
      using len by (cases p) auto
    have "y \<in> set nums"
      using "1.prems" p by (metis list.set_intros(1) mset_eq_setD)
    then obtain i where i: "i < length nums" and y: "nums ! i = y"
      by (auto simp: in_set_conv_nth)
    have "mset q = mset nums - {#nums ! i#}"
      using "1.prems" p y by (metis add_mset_remove_trivial mset.simps(2))
    then have "mset q = mset (take i nums @ drop (Suc i) nums)"
      using remove_nth_mset [OF i] by simp
    then have "q \<in> set (generatePermutations (take i nums @ drop (Suc i) nums))"
      using "1.IH" [OF False] i by simp
    then show ?thesis
      using False i p y
      by (subst generatePermutations.simps) force
  qed
qed

lemma generatePermutations_map:
  "generatePermutations (map f xs) = map (map f) (generatePermutations xs)"
proof (induction xs rule: generatePermutations.induct)
  case (1 nums)
  show ?case
  proof (cases "length nums \<le> 1")
    case True
    then show ?thesis
      by (simp add: generatePermutations.simps [of nums] generatePermutations.simps [of "map f nums"])
  next
    case False
    have step: "generatePermutations (take i (map f nums) @ drop (Suc i) (map f nums))
          = map (map f) (generatePermutations (take i nums @ drop (Suc i) nums))"
      if "i < length nums" for i
      using "1.IH" [OF False, of i] that by (simp add: take_map drop_map)
    have "generatePermutations (map f nums) =
       concat (map (\<lambda>i. map (\<lambda>perm. (map f nums ! i) # perm)
                 (generatePermutations (take i (map f nums) @ drop (Suc i) (map f nums))))
               [0..<length nums])"
      using False by (subst generatePermutations.simps) simp
    also have "\<dots> = concat (map (\<lambda>i. map (\<lambda>perm. f (nums ! i) # perm)
                 (map (map f) (generatePermutations (take i nums @ drop (Suc i) nums))))
               [0..<length nums])"
      by (rule arg_cong [where f = concat], rule map_cong) (simp_all add: step)
    also have "\<dots> = map (map f) (generatePermutations nums)"
      using False
      by (subst (2) generatePermutations.simps) (simp add: map_concat comp_def)
    finally show ?thesis .
  qed
qed

text \<open>
  C7. For an input of exactly four operands \<open>generatePermutations\<close> returns 24 orderings;
  every ordering of the four positions occurs among them, and each returned ordering holds
  every input operand exactly once (it has the multiset of the input).
\<close>

theorem generatePermutations_four:
  assumes "length nums = 4"
  shows "length (generatePermutations nums) = 24
    \<and> (\<forall>order. mset order = mset [0, 1, 2, 3]
          \<longrightarrow> map (\<lambda>i. nums ! i) order \<in> set (generatePermutations nums))
    \<and> (\<forall>p \<in> set (generatePermutations nums). mset p = mset nums)"
proof -
  have "fact (length nums) = (24::nat)"
    using assms by (simp add: fact_numeral)
  then have a: "length (generatePermutations nums) = 24"
    by (simp add: generatePermutations_length)
  have "[0..<4] = [0, 1, 2, 3::nat]"
    by (simp add: upt_rec)
  then have nums: "nums = map (\<lambda>i. nums ! i) [0, 1, 2, 3]"
    using map_nth [of nums] assms by simp
  from nums [symmetric]
  have eq: "generatePermutations (map (\<lambda>i. nums ! i) [0, 1, 2, 3]) = generatePermutations nums"
    by (rule arg_cong)
  have b: "map (\<lambda>i. nums ! i) order \<in> set (generatePermutations nums)"
    if "mset order = mset [0, 1, 2, 3::nat]" for order
  proof -
    have "order \<in> set (generatePermutations [0, 1, 2, 3])"
      using that by (rule generatePermutations_complete)
    then have "map (\<lambda>i. nums ! i) order
         \<in> map (\<lambda>i. nums ! i) ` set (generatePermutations [0, 1, 2, 3])"
      by (rule imageI)
    then have "map (\<lambda>i. nums ! i) order
         \<in> set (generatePermutations (map (\<lambda>i. nums ! i) [0, 1, 2, 3]))"
      by (simp only: generatePermutations_map set_map)
    then show ?thesis by (simp only: eq)
  qed
  show ?thesis
    using a b generatePermutations_mset by blast
qed

theorem generatePermutations_four_witness:
  "length [3, 3, 8, 8::real] = 4
    \<and> length (generatePermutations [3, 3, 8, 8::real]) = 24
    \<and> [8, 3, 8, 3] \<in> set (generatePermutations [3, 3, 8, 8::real])"
proof -
  have len: "length [3, 3, 8, 8::real] = 4" by simp
  have ord: "mset [2, 0, 3, 1::nat] = mset [0, 1, 2, 3]" by simp
  from generatePermutations_four [OF len] ord
  have "map (\<lambda>i. [3, 3, 8, 8::real] ! i) [2, 0, 3, 1] \<in> set (generatePermutations [3, 3, 8, 8::real])"
    by blast
  then show ?thesis
    using generatePermutations_four [OF len] by simp
qed

section \<open>The loops of the search admit the first discovery of each key\<close>

lemma admitNew_filter:
  "admitNew key seen xs = filter (\<lambda>x. \<not> seen (key x)) (firstOfEachKey key xs)"
proof (induction xs arbitrary: seen)
  case Nil
  show ?case by simp
next
  case (Cons x xs)
  let ?fo = "firstOfEachKey key xs"
  show ?case
  proof (cases "seen (key x)")
    case True
    have "filter (\<lambda>y. \<not> seen (key y)) (filter (\<lambda>y. key y \<noteq> key x) ?fo)
        = filter (\<lambda>y. \<not> seen (key y)) ?fo"
      unfolding filter_filter by (rule filter_cong) (use True in auto)
    then show ?thesis
      using True Cons.IH [of seen] by simp
  next
    case False
    have "admitNew key seen (x # xs) = x # admitNew key (seen(key x := True)) xs"
      using False by simp
    also have "\<dots> = x # filter (\<lambda>y. \<not> (seen(key x := True)) (key y)) ?fo"
      by (simp only: Cons.IH)
    also have "filter (\<lambda>y. \<not> (seen(key x := True)) (key y)) ?fo
        = filter (\<lambda>y. \<not> seen (key y)) (filter (\<lambda>y. key y \<noteq> key x) ?fo)"
      unfolding filter_filter by (rule filter_cong) auto
    finally show ?thesis
      using False by simp
  qed
qed

lemma admitNew_append:
  "admitNew key seen (xs @ ys) =
     admitNew key seen xs @ admitNew key (\<lambda>k. seen k \<or> k \<in> key ` set xs) ys"
proof (induction xs arbitrary: seen)
  case Nil
  show ?case by simp
next
  case (Cons x xs)
  show ?case
  proof (cases "seen (key x)")
    case True
    have "(\<lambda>k. seen k \<or> k \<in> key ` set (x # xs)) = (\<lambda>k. seen k \<or> k \<in> key ` set xs)"
      using True by auto
    then show ?thesis
      using True Cons.IH [of seen] by simp
  next
    case False
    have eq: "(\<lambda>k. (seen(key x := True)) k \<or> k \<in> key ` set xs)
         = (\<lambda>k. seen k \<or> k \<in> key ` set (x # xs))"
      by auto
    have "admitNew key seen ((x # xs) @ ys) = x # admitNew key (seen(key x := True)) (xs @ ys)"
      using False by simp
    also have "\<dots> = x # admitNew key (seen(key x := True)) xs
          @ admitNew key (\<lambda>k. (seen(key x := True)) k \<or> k \<in> key ` set xs) ys"
      by (simp only: Cons.IH append_Cons)
    also have "\<dots> = admitNew key seen (x # xs)
          @ admitNew key (\<lambda>k. seen k \<or> k \<in> key ` set (x # xs)) ys"
      unfolding eq using False by simp
    finally show ?thesis .
  qed
qed

lemma firstOfEachKey_admitNew:
  "firstOfEachKey key xs = admitNew key (\<lambda>k. False) xs"
  by (simp add: admitNew_filter)

lemma firstOfEachKey_set: "set (firstOfEachKey key xs) \<subseteq> set xs"
  by (induction xs) auto

lemma firstOfEachKey_distinct: "distinct (map key (firstOfEachKey key xs))"
proof (induction xs)
  case Nil
  show ?case by simp
next
  case (Cons x xs)
  have "distinct (map key (filter (\<lambda>y. key y \<noteq> key x) (firstOfEachKey key xs)))"
    using Cons.IH by (simp add: distinct_map_filter)
  then show ?case by auto
qed

lemma firstOfEachKey_subseq: "subseq (firstOfEachKey key xs) xs"
proof (induction xs)
  case Nil
  show ?case by simp
next
  case (Cons x xs)
  have "subseq (filter (\<lambda>y. key y \<noteq> key x) (firstOfEachKey key xs)) (firstOfEachKey key xs)"
    by simp
  then have "subseq (filter (\<lambda>y. key y \<noteq> key x) (firstOfEachKey key xs)) xs"
    using Cons.IH subseq_order.order_trans by blast
  then show ?case by simp
qed

lemma wellFormed_has_key:
  "wellFormed t \<longrightarrow> (\<exists>k. getCanonicalKey ff t = Some k)"
  "wellFormed t \<longrightarrow> (\<exists>r. collectOperands ff t opr acc = Some r)"
proof (induction ff t and ff t opr acc rule: getCanonicalKey_collectOperands.induct)
  case (1 ff opn v)
  show ?case by simp
next
  case (2 ff opn v l r)
  show ?case
  proof
    assume wf: "wellFormed (Node opn v (Some l) (Some r))"
    then obtain kl where kl: "getCanonicalKey ff l = Some kl"
      using "2.IH"(1) by auto
    from wf obtain kr where kr: "getCanonicalKey ff r = Some kr"
      using "2.IH"(2) [OF kl] by auto
    show "\<exists>k. getCanonicalKey ff (Node opn v (Some l) (Some r)) = Some k"
    proof (cases "\<not> (opn = ''*'' \<and> kl = ''1'') \<and> \<not> (opn = ''*'' \<and> kr = ''1'')
        \<and> \<not> (opn = ''/'' \<and> kr = ''1'') \<and> (opn = ''+'' \<or> opn = ''*'')")
      case True
      then obtain rs where
        "collectOperands ff (Node opn v (Some l) (Some r)) opn [] = Some rs"
        using "2.IH"(3) [OF kl kr] wf by blast
      then show ?thesis
        using kl kr by simp
    next
      case False
      then show ?thesis
        using kl kr by auto
    qed
  qed
next
  case (4 ff opn v l r opr operands)
  show ?case
  proof
    assume wf: "wellFormed (Node opn v l r)"
    show "\<exists>rs. collectOperands ff (Node opn v l r) opr operands = Some rs"
    proof (cases "opn = opr")
      case False
      then show ?thesis
        using "4.IH"(3) wf by auto
    next
      case True
      show ?thesis
      proof (cases l)
        case None
        with wf have "r = None" by (cases r) auto
        with None True show ?thesis by simp
      next
        case (Some lc)
        with wf obtain rc where r: "r = Some rc" by (cases r) auto
        from wf Some r have wfl: "wellFormed lc" and wfr: "wellFormed rc" by auto
        from "4.IH"(1) [OF True Some] wfl obtain o1 where
          o1: "collectOperands ff lc opr operands = Some o1" by auto
        have "(case l of None \<Rightarrow> Some operands
               | Some lc \<Rightarrow> collectOperands ff lc opr operands) = Some o1"
          using Some o1 by simp
        from "4.IH"(2) [OF True this r] wfr obtain o2 where
          "collectOperands ff rc opr o1 = Some o2" by auto
        then show ?thesis
          using True Some r o1 by simp
      qed
    qed
  qed
qed simp_all

lemma leaves_nth:
  "leaves perm ! 0 = Node [] (perm ! 0) None None"
  "leaves perm ! 1 = Node [] (perm ! 1) None None"
  "leaves perm ! Suc 0 = Node [] (perm ! Suc 0) None None"
  "leaves perm ! 2 = Node [] (perm ! 2) None None"
  "leaves perm ! 3 = Node [] (perm ! 3) None None"
  by (simp_all add: leaves_def upt_rec numeral_2_eq_2 numeral_3_eq_3)

lemma pattern1_wellFormed: "list_all wellFormed (pattern1 (leaves perm) ops)"
  by (simp add: pattern1_def leaves_nth Let_def split: prod.splits)

lemma pattern2_wellFormed: "list_all wellFormed (pattern2 (leaves perm) ops)"
  by (simp add: pattern2_def leaves_nth Let_def split: prod.splits)

lemma pattern3_wellFormed: "list_all wellFormed (pattern3 (leaves perm) ops)"
  by (simp add: pattern3_def leaves_nth Let_def split: prod.splits)

lemma pattern4_wellFormed: "list_all wellFormed (pattern4 (leaves perm) ops)"
  by (simp add: pattern4_def leaves_nth Let_def split: prod.splits)

lemma pattern5_wellFormed: "list_all wellFormed (pattern5 (leaves perm) ops)"
  by (simp add: pattern5_def leaves_nth Let_def split: prod.splits)

lemma buildTrees_wellFormed: "t \<in> set (buildTrees perm ops) \<Longrightarrow> wellFormed t"
proof -
  have "list_all wellFormed (buildTrees perm ops)"
    unfolding buildTrees_def Let_def list_all_append
    using pattern1_wellFormed pattern2_wellFormed pattern3_wellFormed pattern4_wellFormed
      pattern5_wellFormed by blast
  then show "t \<in> set (buildTrees perm ops) \<Longrightarrow> wellFormed t"
    by (simp add: list_all_iff)
qed

lemma shapesOf_trees: "map snd (shapesOf perm ops) = buildTrees perm ops"
  by (simp add: shapesOf_def buildTrees_def shape_def Let_def comp_def)

lemma liftSeen_update: "liftSeen (seen(k := True)) = (liftSeen seen)(Some k := True)"
  by (rule ext) (simp add: liftSeen_def split: option.splits)

lemma acceptLoop_admitNew:
  assumes "\<forall>t \<in> snd ` set kts. wellFormed t"
  shows "\<exists>seen'. acceptLoop ff perm ops i (map snd kts) (res, seen) =
           Some (res @ map solutionOf
                   (admitNew (treeKey ff) (liftSeen seen) (numbered perm ops i kts)), seen')
         \<and> liftSeen seen' =
             (\<lambda>ko. liftSeen seen ko \<or> ko \<in> treeKey ff ` set (numbered perm ops i kts))"
  using assms
proof (induction kts arbitrary: i res seen)
  case Nil
  show ?case by simp
next
  case (Cons kt kts)
  obtain k t where kt: "kt = (k, t)" by (cases kt)
  let ?d = "\<lparr>dperm = perm, dops = ops, dshape = k, dindex = i, dtree = t\<rparr>"
  let ?ds = "numbered perm ops (Suc i) kts"
  from Cons.prems kt have "wellFormed t" by simp
  then obtain key where key: "getCanonicalKey ff t = Some key"
    using wellFormed_has_key(1) by blast
  then have tk: "treeKey ff ?d = Some key"
    by (simp add: treeKey_def)
  have rest: "\<forall>t \<in> snd ` set kts. wellFormed t"
    using Cons.prems by simp
  show ?case
  proof (cases "seen key")
    case True
    from Cons.IH [OF rest, of "Suc i" res seen] obtain seen' where
      run: "acceptLoop ff perm ops (Suc i) (map snd kts) (res, seen) =
           Some (res @ map solutionOf (admitNew (treeKey ff) (liftSeen seen) ?ds), seen')"
      and seen': "liftSeen seen' = (\<lambda>ko. liftSeen seen ko \<or> ko \<in> treeKey ff ` set ?ds)"
      by blast
    have s: "liftSeen seen (treeKey ff ?d)"
      using True tk by (simp add: liftSeen_def)
    have "acceptLoop ff perm ops i (map snd (kt # kts)) (res, seen) =
           Some (res @ map solutionOf
                   (admitNew (treeKey ff) (liftSeen seen) (numbered perm ops i (kt # kts))), seen')"
      using True key run s kt by simp
    moreover have "liftSeen seen' =
        (\<lambda>ko. liftSeen seen ko \<or> ko \<in> treeKey ff ` set (numbered perm ops i (kt # kts)))"
      using seen' s kt by auto
    ultimately show ?thesis by blast
  next
    case False
    let ?sol = "\<lparr>formula = renderFormula i perm ops, value = val t\<rparr>"
    from Cons.IH [OF rest, of "Suc i" "res @ [?sol]" "seen(key := True)"] obtain seen' where
      run: "acceptLoop ff perm ops (Suc i) (map snd kts) (res @ [?sol], seen(key := True)) =
           Some ((res @ [?sol]) @ map solutionOf
                  (admitNew (treeKey ff) (liftSeen (seen(key := True))) ?ds), seen')"
      and seen': "liftSeen seen' =
           (\<lambda>ko. liftSeen (seen(key := True)) ko \<or> ko \<in> treeKey ff ` set ?ds)"
      by blast
    have s: "\<not> liftSeen seen (treeKey ff ?d)"
      using False tk by (simp add: liftSeen_def)
    have sol: "solutionOf ?d = ?sol"
      by (simp add: solutionOf_def)
    have adm: "admitNew (treeKey ff) (liftSeen seen) (numbered perm ops i (kt # kts))
        = ?d # admitNew (treeKey ff) (liftSeen (seen(key := True))) ?ds"
      using s kt tk by (simp add: liftSeen_update)
    have "acceptLoop ff perm ops i (map snd (kt # kts)) (res, seen) =
           Some (res @ map solutionOf
                   (admitNew (treeKey ff) (liftSeen seen) (numbered perm ops i (kt # kts))), seen')"
      unfolding adm using False key run kt sol by simp
    moreover have "liftSeen seen' =
        (\<lambda>ko. liftSeen seen ko \<or> ko \<in> treeKey ff ` set (numbered perm ops i (kt # kts)))"
      unfolding seen' liftSeen_update using kt tk by auto
    ultimately show ?thesis by blast
  qed
qed

lemma findSolutions_admitNew:
  assumes "4 \<le> length perm" "3 \<le> length ops"
  shows "\<exists>seen'. findSolutions ff perm ops seen =
           Some (map solutionOf (admitNew (treeKey ff) (liftSeen seen) (discoveries perm ops)),
                 seen')
         \<and> liftSeen seen' =
             (\<lambda>ko. liftSeen seen ko \<or> ko \<in> treeKey ff ` set (discoveries perm ops))"
proof -
  have wf: "\<forall>t \<in> snd ` set (shapesOf perm ops). wellFormed t"
    using buildTrees_wellFormed [of _ perm ops]
    by (simp only: shapesOf_trees [symmetric] set_map) blast
  from acceptLoop_admitNew [OF wf, of ff perm ops 0 "[]" seen]
  show ?thesis
    using assms by (simp add: findSolutions_def discoveries_def shapesOf_trees)
qed

lemma opsLoop_admitNew:
  assumes "4 \<le> length perm" "\<forall>ops \<in> set opss. 3 \<le> length ops"
  shows "\<exists>seen'. opsLoop ff perm opss (res, seen) =
           Some (res @ map solutionOf
                   (admitNew (treeKey ff) (liftSeen seen)
                      (concat (map (\<lambda>ops. discoveries perm ops) opss))), seen')
         \<and> liftSeen seen' =
             (\<lambda>ko. liftSeen seen ko
                \<or> ko \<in> treeKey ff ` set (concat (map (\<lambda>ops. discoveries perm ops) opss)))"
  using assms(2)
proof (induction opss arbitrary: res seen)
  case Nil
  show ?case by simp
next
  case (Cons ops opss)
  let ?ds = "discoveries perm ops"
  let ?rest = "concat (map (\<lambda>ops. discoveries perm ops) opss)"
  from Cons.prems have len: "3 \<le> length ops" and rest: "\<forall>ops \<in> set opss. 3 \<le> length ops"
    by simp_all
  from findSolutions_admitNew [OF assms(1) len, of ff seen] obtain seen1 where
    f: "findSolutions ff perm ops seen =
          Some (map solutionOf (admitNew (treeKey ff) (liftSeen seen) ?ds), seen1)"
    and s1: "liftSeen seen1 = (\<lambda>ko. liftSeen seen ko \<or> ko \<in> treeKey ff ` set ?ds)"
    by blast
  from Cons.IH [OF rest, of "res @ map solutionOf (admitNew (treeKey ff) (liftSeen seen) ?ds)" seen1]
  obtain seen' where
    run: "opsLoop ff perm opss
            (res @ map solutionOf (admitNew (treeKey ff) (liftSeen seen) ?ds), seen1) =
          Some ((res @ map solutionOf (admitNew (treeKey ff) (liftSeen seen) ?ds))
                 @ map solutionOf (admitNew (treeKey ff) (liftSeen seen1) ?rest), seen')"
    and s': "liftSeen seen' = (\<lambda>ko. liftSeen seen1 ko \<or> ko \<in> treeKey ff ` set ?rest)"
    by blast
  have "opsLoop ff perm (ops # opss) (res, seen) =
          Some (res @ map solutionOf
                  (admitNew (treeKey ff) (liftSeen seen)
                     (concat (map (\<lambda>ops. discoveries perm ops) (ops # opss)))), seen')"
    using f run by (simp add: admitNew_append s1)
  moreover have "liftSeen seen' =
      (\<lambda>ko. liftSeen seen ko
         \<or> ko \<in> treeKey ff ` set (concat (map (\<lambda>ops. discoveries perm ops) (ops # opss))))"
    unfolding s' s1 by auto
  ultimately show ?case by blast
qed

lemma permLoop_admitNew:
  assumes "\<forall>perm \<in> set perms. 4 \<le> length perm" "\<forall>ops \<in> set opss. 3 \<le> length ops"
  shows "\<exists>seen'. permLoop ff perms opss (res, seen) =
           Some (res @ map solutionOf
                   (admitNew (treeKey ff) (liftSeen seen)
                      (concat (map (\<lambda>perm. concat (map (\<lambda>ops. discoveries perm ops) opss))
                                   perms))), seen')
         \<and> liftSeen seen' =
             (\<lambda>ko. liftSeen seen ko
                \<or> ko \<in> treeKey ff `
                    set (concat (map (\<lambda>perm. concat (map (\<lambda>ops. discoveries perm ops) opss))
                                     perms)))"
  using assms(1)
proof (induction perms arbitrary: res seen)
  case Nil
  show ?case by simp
next
  case (Cons perm perms)
  let ?ds = "concat (map (\<lambda>ops. discoveries perm ops) opss)"
  let ?rest = "concat (map (\<lambda>perm. concat (map (\<lambda>ops. discoveries perm ops) opss)) perms)"
  from Cons.prems have len: "4 \<le> length perm" and rest: "\<forall>perm \<in> set perms. 4 \<le> length perm"
    by simp_all
  from opsLoop_admitNew [OF len assms(2), of ff res seen] obtain seen1 where
    f: "opsLoop ff perm opss (res, seen) =
          Some (res @ map solutionOf (admitNew (treeKey ff) (liftSeen seen) ?ds), seen1)"
    and s1: "liftSeen seen1 = (\<lambda>ko. liftSeen seen ko \<or> ko \<in> treeKey ff ` set ?ds)"
    by blast
  from Cons.IH [OF rest, of "res @ map solutionOf (admitNew (treeKey ff) (liftSeen seen) ?ds)" seen1]
  obtain seen' where
    run: "permLoop ff perms opss
            (res @ map solutionOf (admitNew (treeKey ff) (liftSeen seen) ?ds), seen1) =
          Some ((res @ map solutionOf (admitNew (treeKey ff) (liftSeen seen) ?ds))
                 @ map solutionOf (admitNew (treeKey ff) (liftSeen seen1) ?rest), seen')"
    and s': "liftSeen seen' = (\<lambda>ko. liftSeen seen1 ko \<or> ko \<in> treeKey ff ` set ?rest)"
    by blast
  have "permLoop ff (perm # perms) opss (res, seen) =
          Some (res @ map solutionOf
                  (admitNew (treeKey ff) (liftSeen seen)
                     (concat (map (\<lambda>perm. concat (map (\<lambda>ops. discoveries perm ops) opss))
                                  (perm # perms)))), seen')"
    using f run by (simp add: admitNew_append s1)
  moreover have "liftSeen seen' =
      (\<lambda>ko. liftSeen seen ko
         \<or> ko \<in> treeKey ff `
             set (concat (map (\<lambda>perm. concat (map (\<lambda>ops. discoveries perm ops) opss))
                              (perm # perms))))"
    unfolding s' s1 by (rule ext) (simp add: image_Un disj_assoc)
  ultimately show ?case by blast
qed

lemma numbered_trees:
  "d \<in> set (numbered perm ops i kts) \<Longrightarrow> dtree d \<in> snd ` set kts"
  by (induction perm ops i kts rule: numbered.induct) auto

lemma generateOperations_length: "ops \<in> set generateOperations \<Longrightarrow> length ops = 3"
  by (auto simp: generateOperations_def operations_def)

lemma generatePermutations_same_length:
  "perm \<in> set (generatePermutations nums) \<Longrightarrow> length perm = length nums"
  using generatePermutations_mset [of perm nums] by (metis size_mset)

lemma searchAll_admitted:
  assumes "length nums = 4"
  shows "searchAll ff nums = Some (map solutionOf (admitted ff nums))"
proof -
  have p: "\<forall>perm \<in> set (generatePermutations nums). 4 \<le> length perm"
    using generatePermutations_same_length assms by fastforce
  have o: "\<forall>ops \<in> set generateOperations. 3 \<le> length ops"
    using generateOperations_length by fastforce
  have l: "liftSeen (\<lambda>k. False) = (\<lambda>ko. False)"
    by (rule ext) (simp add: liftSeen_def split: option.splits)
  from permLoop_admitNew [OF p o, of ff "[]" "\<lambda>k. False"]
  show ?thesis
    by (auto simp: searchAll_def admitted_def discoveryOrder_def l firstOfEachKey_admitNew)
qed

text \<open>
  C8. For every input of four operands the result list is in discovery order: it is the
  list of the Solutions of the admitted discoveries, and the admitted discoveries are a
  subsequence of the traversal that runs over the permutations as \<open>generatePermutations\<close>
  lists them, inside over the operator triples as \<open>generateOperations\<close> lists them, and
  innermost over the shapes 1 to 5; so a Solution found earlier in the traversal stands
  before one found later.
\<close>

theorem search_in_discovery_order:
  assumes "length nums = 4"
  shows "searchAll ff nums = Some (map solutionOf (admitted ff nums))
    \<and> admitted ff nums = firstOfEachKey (treeKey ff) (discoveryOrder nums)
    \<and> subseq (admitted ff nums) (discoveryOrder nums)"
  using searchAll_admitted [OF assms, of ff] firstOfEachKey_subseq [of "treeKey ff" "discoveryOrder nums"]
  by (simp add: admitted_def)

theorem search_in_discovery_order_witness:
  "length [1, 2, 3, 7::real] = 4
    \<and> searchAll wholeStr [1, 2, 3, 7] = Some (map solutionOf (admitted wholeStr [1, 2, 3, 7]))
    \<and> subseq (admitted wholeStr [1, 2, 3, 7]) (discoveryOrder [1, 2, 3, 7])"
proof -
  have len: "length [1, 2, 3, 7::real] = 4" by simp
  show ?thesis
    using search_in_discovery_order [OF len, of wholeStr] len by blast
qed

text \<open>
  C3. For every input of four operands the canonical keys of the trees behind the
  Solutions of the result list are pairwise distinct: the registry, shared by all
  permutations, operator triples and shapes of the search, admits one Solution for each
  key. Every such tree has a key (\<open>getCanonicalKey\<close> does not fail on it).
\<close>

theorem registry_keys_distinct:
  assumes "length nums = 4"
  shows "searchAll ff nums = Some (map solutionOf (admitted ff nums))
    \<and> distinct (map (\<lambda>d. getCanonicalKey ff (dtree d)) (admitted ff nums))
    \<and> list_all (\<lambda>d. getCanonicalKey ff (dtree d) \<noteq> None) (admitted ff nums)"
proof -
  have key: "(\<lambda>d. getCanonicalKey ff (dtree d)) = treeKey ff"
    by (rule ext) (simp add: treeKey_def)
  have "distinct (map (treeKey ff) (admitted ff nums))"
    unfolding admitted_def by (rule firstOfEachKey_distinct)
  moreover have "getCanonicalKey ff (dtree d) \<noteq> None" if "d \<in> set (admitted ff nums)" for d
  proof -
    from that have "d \<in> set (discoveryOrder nums)"
      using firstOfEachKey_set [of "treeKey ff" "discoveryOrder nums"]
      by (auto simp: admitted_def)
    then obtain perm ops where "d \<in> set (discoveries perm ops)"
      by (auto simp: discoveryOrder_def)
    then have "dtree d \<in> set (buildTrees perm ops)"
      using numbered_trees [of d perm ops 0 "shapesOf perm ops"]
      by (simp add: discoveries_def shapesOf_trees [symmetric])
    then have "wellFormed (dtree d)"
      by (rule buildTrees_wellFormed)
    then show ?thesis
      using wellFormed_has_key(1) [of "dtree d" ff] by auto
  qed
  ultimately show ?thesis
    using searchAll_admitted [OF assms, of ff] by (simp add: key list_all_iff)
qed

theorem registry_keys_distinct_witness:
  "length [1, 2, 3, 7::real] = 4
    \<and> distinct (map (\<lambda>d. getCanonicalKey wholeStr (dtree d)) (admitted wholeStr [1, 2, 3, 7]))"
proof -
  have len: "length [1, 2, 3, 7::real] = 4" by simp
  show ?thesis
    using registry_keys_distinct [OF len, of wholeStr] len by blast
qed

section \<open>The value of a Solution\<close>

text \<open>The value field of every Solution of the result list is within the tolerance of
  24: it is the value of the accepted tree.\<close>

lemma pattern1_value: "list_all (\<lambda>t. isApproximately24 (val t)) (pattern1 n ops)"
  by (simp add: pattern1_def Let_def split: prod.splits)

lemma pattern2_value: "list_all (\<lambda>t. isApproximately24 (val t)) (pattern2 n ops)"
  by (simp add: pattern2_def Let_def split: prod.splits)

lemma pattern3_value: "list_all (\<lambda>t. isApproximately24 (val t)) (pattern3 n ops)"
  by (simp add: pattern3_def Let_def split: prod.splits)

lemma pattern4_value: "list_all (\<lambda>t. isApproximately24 (val t)) (pattern4 n ops)"
  by (simp add: pattern4_def Let_def split: prod.splits)

lemma pattern5_value: "list_all (\<lambda>t. isApproximately24 (val t)) (pattern5 n ops)"
  by (simp add: pattern5_def Let_def split: prod.splits)

lemma buildTrees_value: "t \<in> set (buildTrees perm ops) \<Longrightarrow> isApproximately24 (val t)"
proof -
  have "list_all (\<lambda>t. isApproximately24 (val t)) (buildTrees perm ops)"
    unfolding buildTrees_def Let_def list_all_append
    using pattern1_value pattern2_value pattern3_value pattern4_value pattern5_value by blast
  then show "t \<in> set (buildTrees perm ops) \<Longrightarrow> isApproximately24 (val t)"
    by (simp add: list_all_iff)
qed

lemma searchAll_value_near_24:
  assumes "length nums = 4" "searchAll ff nums = Some sols" "e \<in> set sols"
  shows "isApproximately24 (value e)"
proof -
  from assms obtain d where d: "d \<in> set (admitted ff nums)" and e: "e = solutionOf d"
    using searchAll_admitted [OF assms(1), of ff] by auto
  from d have "d \<in> set (discoveryOrder nums)"
    using firstOfEachKey_set [of "treeKey ff" "discoveryOrder nums"]
    by (auto simp: admitted_def)
  then obtain perm ops where "d \<in> set (discoveries perm ops)"
    by (auto simp: discoveryOrder_def)
  then have "dtree d \<in> set (buildTrees perm ops)"
    using numbered_trees [of d perm ops 0 "shapesOf perm ops"]
    by (simp add: discoveries_def shapesOf_trees [symmetric])
  then show ?thesis
    using buildTrees_value e by (simp add: solutionOf_def)
qed

section \<open>Four ones\<close>

lemma ones_perm: "perm \<in> set (generatePermutations [1, 1, 1, 1::real]) \<Longrightarrow> perm = [1, 1, 1, 1]"
proof -
  assume "perm \<in> set (generatePermutations [1, 1, 1, 1::real])"
  then have m: "mset perm = mset [1, 1, 1, 1::real]"
    by (rule generatePermutations_mset)
  have "length perm = 4"
    using mset_eq_length [OF m] by simp
  moreover have "\<And>y. y \<in> set perm \<Longrightarrow> y = 1"
    using mset_eq_setD [OF m] by auto
  ultimately have "perm = replicate 4 1"
    by (intro replicate_eqI) auto
  then show ?thesis by (simp add: numeral_eq_Suc)
qed

lemma ones_pattern1:
  assumes "o1 \<in> set operations" "o2 \<in> set operations" "o3 \<in> set operations"
  shows "pattern1 (leaves [1, 1, 1, 1]) [o1, o2, o3] = []"
  using assms unfolding operations_def
  by (simp add: leaves_nth pattern1_def calculate_def isApproximately24_def; elim disjE; simp)

lemma ones_pattern2:
  assumes "o1 \<in> set operations" "o2 \<in> set operations" "o3 \<in> set operations"
  shows "pattern2 (leaves [1, 1, 1, 1]) [o1, o2, o3] = []"
  using assms unfolding operations_def
  by (simp add: leaves_nth pattern2_def calculate_def isApproximately24_def; elim disjE; simp)

lemma ones_pattern3:
  assumes "o1 \<in> set operations" "o2 \<in> set operations" "o3 \<in> set operations"
  shows "pattern3 (leaves [1, 1, 1, 1]) [o1, o2, o3] = []"
  using assms unfolding operations_def
  by (simp add: leaves_nth pattern3_def calculate_def isApproximately24_def; elim disjE; simp)

lemma ones_pattern4:
  assumes "o1 \<in> set operations" "o2 \<in> set operations" "o3 \<in> set operations"
  shows "pattern4 (leaves [1, 1, 1, 1]) [o1, o2, o3] = []"
  using assms unfolding operations_def
  by (simp add: leaves_nth pattern4_def calculate_def isApproximately24_def; elim disjE; simp)

lemma ones_pattern5:
  assumes "o1 \<in> set operations" "o2 \<in> set operations" "o3 \<in> set operations"
  shows "pattern5 (leaves [1, 1, 1, 1]) [o1, o2, o3] = []"
  using assms unfolding operations_def
  by (simp add: leaves_nth pattern5_def calculate_def isApproximately24_def; elim disjE; simp)

lemma generateOperations_triple:
  "ops \<in> set generateOperations \<Longrightarrow>
     \<exists>o1 o2 o3. ops = [o1, o2, o3] \<and> o1 \<in> set operations \<and> o2 \<in> set operations
        \<and> o3 \<in> set operations"
  unfolding generateOperations_def by auto

lemma ones_no_candidate:
  assumes "ops \<in> set generateOperations"
  shows "discoveries [1, 1, 1, 1] ops = []"
proof -
  from generateOperations_triple [OF assms] obtain o1 o2 o3 where
    "ops = [o1, o2, o3]" "o1 \<in> set operations" "o2 \<in> set operations" "o3 \<in> set operations"
    by blast
  then show ?thesis
    by (simp add: discoveries_def shapesOf_def shape_def ones_pattern1 ones_pattern2
        ones_pattern3 ones_pattern4 ones_pattern5)
qed

text \<open>
  C9. For the operands (1, 1, 1, 1) the search over all permutations, operator triples
  and shapes accepts no candidate: the result list is empty.
\<close>

theorem four_ones_no_solution: "searchAll ff [1, 1, 1, 1] = Some []"
proof -
  have "concat (map (\<lambda>ops. discoveries perm ops) generateOperations) = []"
    if "perm \<in> set (generatePermutations [1, 1, 1, 1::real])" for perm
    using ones_perm [OF that] ones_no_candidate by simp
  then have "discoveryOrder [1, 1, 1, 1] = []"
    by (simp add: discoveryOrder_def)
  then have "admitted ff [1, 1, 1, 1] = []"
    by (simp add: admitted_def)
  then show ?thesis
    using searchAll_admitted [of "[1, 1, 1, 1]" ff] by simp
qed

theorem four_ones_no_solution_witness: "searchAll wholeStr [1, 1, 1, 1] = Some []"
  using four_ones_no_solution [of wholeStr] .

section \<open>Canonical keys: identities and chains\<close>

lemma natStr_digit: "n < 10 \<Longrightarrow> natStr n = [digitChar n]"
  by (simp add: natStr.simps)

lemma wholeStr_digits:
  "wholeStr 1 = ''1''" "wholeStr 2 = ''2''" "wholeStr 3 = ''3''"
  by (simp_all add: wholeStr_def natStr_digit digitChar_def)

lemma fmt0f_digits:
  "fmt0f 1 = ''1''" "fmt0f 2 = ''2''" "fmt0f 3 = ''3''" "fmt0f 7 = ''7''"
  by (simp_all add: fmt0f_def roundHalfEven_def natStr_digit digitChar_def)

text \<open>
  C6. For a well-formed tree \<open>x\<close> and a leaf of value 1 (printed as \<open>1\<close>), the trees
  \<open>x * 1\<close>, \<open>1 * x\<close> and \<open>x / 1\<close> have the key of \<open>x\<close>.
\<close>

theorem identity_simplification:
  assumes "wellFormed x" "ff 1 = ''1''"
  shows "\<exists>k. getCanonicalKey ff x = Some k
    \<and> getCanonicalKey ff (Node ''*'' v (Some x) (Some (Node lop 1 None None))) = Some k
    \<and> getCanonicalKey ff (Node ''*'' v (Some (Node lop 1 None None)) (Some x)) = Some k
    \<and> getCanonicalKey ff (Node ''/'' v (Some x) (Some (Node lop 1 None None))) = Some k"
proof -
  from assms(1) obtain k where k: "getCanonicalKey ff x = Some k"
    using wellFormed_has_key(1) by blast
  show ?thesis
    using k assms(2) by (simp add: numStr_def)
qed

theorem identity_simplification_witness:
  "getCanonicalKey wholeStr (Node ''-'' 1 (Some (Node [] 3 None None)) (Some (Node [] 2 None None)))
     = Some ''(3-2)''
   \<and> getCanonicalKey wholeStr
        (Node ''*'' 1 (Some (Node ''-'' 1 (Some (Node [] 3 None None)) (Some (Node [] 2 None None))))
                      (Some (Node [] 1 None None))) = Some ''(3-2)''
   \<and> getCanonicalKey wholeStr
        (Node ''*'' 1 (Some (Node [] 1 None None))
           (Some (Node ''-'' 1 (Some (Node [] 3 None None)) (Some (Node [] 2 None None)))))
       = Some ''(3-2)''
   \<and> getCanonicalKey wholeStr
        (Node ''/'' 1 (Some (Node ''-'' 1 (Some (Node [] 3 None None)) (Some (Node [] 2 None None))))
                      (Some (Node [] 1 None None))) = Some ''(3-2)''"
proof -
  let ?x = "Node ''-'' 1 (Some (Node [] 3 None None)) (Some (Node [] 2 None None))"
  have wf: "wellFormed ?x" by simp
  have one: "wholeStr 1 = ''1''" by (rule wholeStr_digits)
  have key: "getCanonicalKey wholeStr ?x = Some ''(3-2)''"
    by (simp add: numStr_def wholeStr_digits)
  from identity_simplification [where x = "?x" and ff = wholeStr and v = 1 and lop = "[]", OF wf one] key
  show ?thesis by simp
qed

lemma sort3: "sort [c, b, a] = sort [a, b, c::string]"
proof (rule properties_for_sort)
  have "mset [a, b, c] = mset [c, b, a]" by simp
  then show "mset (sort [a, b, c]) = mset [c, b, a]" by (simp only: mset_sort)
  show "sorted (sort [a, b, c])" by (rule sorted_sort)
qed

lemma getCanonicalKey_plus:
  fixes a b c :: real
  defines "la \<equiv> Node [] a None None" and "lb \<equiv> Node [] b None None" and "lc \<equiv> Node [] c None None"
  shows "getCanonicalKey ff (Node ''+'' v2 (Some (Node ''+'' v1 (Some la) (Some lb))) (Some lc))
      = Some (''('' @ Join (sort [ff a, ff b, ff c]) ''+'' @ '')'')"
    and "getCanonicalKey ff (Node ''+'' v2 (Some la) (Some (Node ''+'' v1 (Some lb) (Some lc))))
      = Some (''('' @ Join (sort [ff a, ff b, ff c]) ''+'' @ '')'')"
    and "getCanonicalKey ff (Node ''+'' v2 (Some lc) (Some (Node ''+'' v1 (Some lb) (Some la))))
      = Some (''('' @ Join (sort [ff a, ff b, ff c]) ''+'' @ '')'')"
  unfolding la_def lb_def lc_def
  by (simp_all add: numStr_def sort3 del: sort_key_simps)

text \<open>
  C4. The trees \<open>(a + b) + c\<close>, \<open>a + (b + c)\<close> and \<open>c + (b + a)\<close> are to have one key,
  and likewise with \<open>*\<close>. For \<open>+\<close> they have (\<open>getCanonicalKey_plus\<close>). For \<open>*\<close> the
  source gives two groupings of one chain different keys when a leaf is 1: the tree
  \<open>(1 * 2) * 3\<close> has the key \<open>(1*2*3)\<close> and the tree \<open>1 * (2 * 3)\<close> has the key \<open>(2*3)\<close>.
\<close>

theorem times_chain_keys_differ:
  "getCanonicalKey wholeStr
     (Node ''*'' 6 (Some (Node ''*'' 2 (Some (Node [] 1 None None)) (Some (Node [] 2 None None))))
                   (Some (Node [] 3 None None))) = Some ''(1*2*3)''
   \<and> getCanonicalKey wholeStr
     (Node ''*'' 6 (Some (Node [] 1 None None))
                   (Some (Node ''*'' 6 (Some (Node [] 2 None None)) (Some (Node [] 3 None None)))))
     = Some ''(2*3)''"
  by (simp add: numStr_def wholeStr_digits)

section \<open>The first Solution for the operands 1, 2, 3, 7\<close>

lemma generatePermutations_1237:
  "\<exists>ps. generatePermutations [1, 2, 3, 7::real] = [1, 2, 3, 7] # ps"
  by (simp add: generatePermutations.simps upt_rec)

lemma generateOperations_first_three:
  "\<exists>os. generateOperations = [''+'', ''+'', ''+''] # [''+'', ''+'', ''-''] # [''+'', ''+'', ''*''] # os"
  by (simp add: generateOperations_def operations_def)

lemma discoveries_1237_plus_plus_plus: "discoveries [1, 2, 3, 7] [''+'', ''+'', ''+''] = []"
  by (simp add: discoveries_def shapesOf_def shape_def leaves_nth pattern1_def pattern2_def
      pattern3_def pattern4_def pattern5_def calculate_def isApproximately24_def)

lemma discoveries_1237_plus_plus_minus: "discoveries [1, 2, 3, 7] [''+'', ''+'', ''-''] = []"
  by (simp add: discoveries_def shapesOf_def shape_def leaves_nth pattern1_def pattern2_def
      pattern3_def pattern4_def pattern5_def calculate_def isApproximately24_def)

lemma discoveries_1237_plus_plus_times:
  "\<exists>d5. discoveries [1, 2, 3, 7] [''+'', ''+'', ''*''] =
     [\<lparr>dperm = [1, 2, 3, 7], dops = [''+'', ''+'', ''*''], dshape = 4, dindex = 0,
       dtree = firstTree1237\<rparr>, d5]"
  by (simp add: discoveries_def shapesOf_def shape_def leaves_nth pattern1_def pattern2_def
      pattern3_def pattern4_def pattern5_def calculate_def isApproximately24_def
      firstTree1237_def)

lemma admitted_1237_first:
  "take 1 (admitted ff [1, 2, 3, 7]) =
     [\<lparr>dperm = [1, 2, 3, 7], dops = [''+'', ''+'', ''*''], dshape = 4, dindex = 0,
       dtree = firstTree1237\<rparr>]"
proof -
  obtain ps where ps: "generatePermutations [1, 2, 3, 7::real] = [1, 2, 3, 7] # ps"
    using generatePermutations_1237 by blast
  obtain os where os: "generateOperations =
      [''+'', ''+'', ''+''] # [''+'', ''+'', ''-''] # [''+'', ''+'', ''*''] # os"
    using generateOperations_first_three by blast
  obtain d5 where d: "discoveries [1, 2, 3, 7] [''+'', ''+'', ''*''] =
     [\<lparr>dperm = [1, 2, 3, 7], dops = [''+'', ''+'', ''*''], dshape = 4, dindex = 0,
       dtree = firstTree1237\<rparr>, d5]"
    using discoveries_1237_plus_plus_times by blast
  have "\<exists>rest. discoveryOrder [1, 2, 3, 7] =
     \<lparr>dperm = [1, 2, 3, 7], dops = [''+'', ''+'', ''*''], dshape = 4, dindex = 0,
       dtree = firstTree1237\<rparr> # rest"
    unfolding discoveryOrder_def ps
    by (simp add: os discoveries_1237_plus_plus_plus discoveries_1237_plus_plus_minus d)
  then show ?thesis
    by (auto simp: admitted_def)
qed

lemma searchAll_1237_first:
  "map_option (take 1) (searchAll ff [1, 2, 3, 7]) =
     Some [solutionOf \<lparr>dperm = [1, 2, 3, 7], dops = [''+'', ''+'', ''*''], dshape = 4,
                       dindex = 0, dtree = firstTree1237\<rparr>]"
proof -
  have "searchAll ff [1, 2, 3, 7] = Some (map solutionOf (admitted ff [1, 2, 3, 7]))"
    by (rule searchAll_admitted) simp
  then have "map_option (take 1) (searchAll ff [1, 2, 3, 7]) =
      Some (map solutionOf (take 1 (admitted ff [1, 2, 3, 7])))"
    by (simp add: take_map)
  then show ?thesis
    by (simp only: admitted_1237_first list.map)
qed

lemma solutionOf_1237_first:
  "solutionOf \<lparr>dperm = [1, 2, 3, 7], dops = [''+'', ''+'', ''*''], dshape = 4,
               dindex = 0, dtree = firstTree1237\<rparr>
     = \<lparr>formula = ''((1 + 2) + 3) * 7'', value = 24\<rparr>"
  by (simp add: solutionOf_def renderFormula_def formulas_def fmt0f_digits firstTree1237_def)

text \<open>
  C1. The formula text of a Solution is to have the parenthesization of the shape whose
  evaluation produced the accepted tree. The source looks the template up at the position
  of the tree among the accepted shapes: for the operands 1, 2, 3, 7 the first Solution
  comes from the tree of shape 4, \<open>1 + (2 + (3 * 7))\<close>, which is the first accepted shape
  of its permutation and operator triple, and its text is that of template 1.
\<close>

theorem first_solution_1237_has_template_1_for_shape_4:
  "map_option (take 1) (searchAll ff [1, 2, 3, 7]) =
      Some [\<lparr>formula = ''((1 + 2) + 3) * 7'', value = 24\<rparr>]
   \<and> take 1 (admitted ff [1, 2, 3, 7]) =
      [\<lparr>dperm = [1, 2, 3, 7], dops = [''+'', ''+'', ''*''], dshape = 4, dindex = 0,
        dtree = firstTree1237\<rparr>]
   \<and> Sprintf (formulas 4)
        [FloatArg 1, StrArg ''+'', FloatArg 2, StrArg ''+'', FloatArg 3, StrArg ''*'', FloatArg 7]
      = ''1 + (2 + (3 * 7))''"
proof -
  have "Sprintf (formulas 4)
        [FloatArg 1, StrArg ''+'', FloatArg 2, StrArg ''+'', FloatArg 3, StrArg ''*'', FloatArg 7]
      = ''1 + (2 + (3 * 7))''"
    by (simp add: formulas_def fmt0f_digits)
  then show ?thesis
    using searchAll_1237_first [of ff] admitted_1237_first [of ff]
    by (simp only: solutionOf_1237_first)
qed

lemma evalFormula_template_1: "evalFormula ''((1 + 2) + 3) * 7'' = Some 42"
  by (simp add: evalFormula_def isDigit_def digitVal_def flush_def applyOp_def)

lemma evalFormula_template_4: "evalFormula ''1 + (2 + (3 * 7))'' = Some 24"
  by (simp add: evalFormula_def isDigit_def digitVal_def flush_def applyOp_def)

text \<open>
  C2. The formula text of a Solution, evaluated as rendered, is to be within \<open>1e-9\<close> of
  24. For the operands 1, 2, 3, 7 the first Solution of the result list has the value
  field 24 and the text \<open>((1 + 2) + 3) * 7\<close>, which evaluates to 42.
\<close>

theorem first_solution_1237_evaluates_to_42:
  "map_option (map (\<lambda>e. (evalFormula (formula e), value e)) \<circ> take 1) (searchAll ff [1, 2, 3, 7])
      = Some [(Some 42, 24)]
   \<and> \<not> isApproximately24 42"
proof -
  have "\<not> isApproximately24 42"
    by (simp add: isApproximately24_def)
  moreover have "map_option (map (\<lambda>e. (evalFormula (formula e), value e)) \<circ> take 1)
           (searchAll ff [1, 2, 3, 7])
      = map_option (map (\<lambda>e. (evalFormula (formula e), value e)))
           (map_option (take 1) (searchAll ff [1, 2, 3, 7]))"
    by (simp add: option.map_comp)
  ultimately show ?thesis
    by (simp only: searchAll_1237_first solutionOf_1237_first) (simp add: evalFormula_template_1)
qed

end
